theory Spec2Isabelle
  imports Main "HOL-Library.AList" "HOL-Library.Word"
begin

section \<open>The header \<^verbatim>\<open>charybdis_layers.h\<close> as preprocessor input\<close>

text \<open>
  The repository consists of one C header,
  \<^verbatim>\<open>boards/shields/charybdis/charybdis_layers.h\<close>:
  \<^verbatim>\<open>
  #pragma once

  // Layer definitions matching the keymap
  #define BASE 0
  #define POINTER 1
  #define LOWER 2
  #define RAISE 3
  #define SYMBOLS 4
  #define SCROLL 5
  #define SNIPING 6
  \<close>
  A header is a list of preprocessing directives. A replacement list is a list of
  preprocessing tokens: identifiers, decimal integer literals (by their value) and
  punctuators. Comments are removed before directives are read and are not modelled.
\<close>

datatype pp_token = Ident string | Num nat | Punct string

datatype pp_directive =
    PragmaOnce
  | Define string "pp_token list"
  | Undef string

definition layers_path :: string where
  "layers_path = ''boards/shields/charybdis/charybdis_layers.h''"

definition charybdis_layers_h :: "pp_directive list" where
  "charybdis_layers_h =
     [PragmaOnce,
      Define ''BASE'' [Num 0],
      Define ''POINTER'' [Num 1],
      Define ''LOWER'' [Num 2],
      Define ''RAISE'' [Num 3],
      Define ''SYMBOLS'' [Num 4],
      Define ''SCROLL'' [Num 5],
      Define ''SNIPING'' [Num 6]]"

text \<open>The names a file defines, in the order of its \<^verbatim>\<open>#define\<close> lines.\<close>

fun defined_names :: "pp_directive list \<Rightarrow> string list" where
  "defined_names [] = []"
| "defined_names (Define n b # ds) = n # defined_names ds"
| "defined_names (PragmaOnce # ds) = defined_names ds"
| "defined_names (Undef n # ds) = defined_names ds"

definition layer_names :: "string list" where
  "layer_names = defined_names charybdis_layers_h"


section \<open>The preprocessor\<close>

text \<open>
  The state of the preprocessor while it reads a translation unit: the table of the
  object-like macros defined so far, and the files that asked to be read only once.
\<close>

record pp_state =
  macros :: "(string \<times> pp_token list) list"
  once :: "string list"

definition init_state :: pp_state where
  "init_state = \<lparr>macros = [], once = []\<rparr>"

datatype pp_error = BadMacroName string

text \<open>
  One directive, read in file \<open>file\<close>.
  \<^item> \<^verbatim>\<open>#pragma once\<close> records the file.
  \<^item> \<^verbatim>\<open>#define n b\<close> enters the macro. Defining a name again replaces its earlier
    replacement list; when the list differs the preprocessor prints a warning and goes
    on, and the warning is not modelled.
  \<^item> \<^verbatim>\<open>#undef n\<close> removes the macro, defined or not.
  \<^item> The name \<^verbatim>\<open>defined\<close> cannot be used as a macro name; this is the one error of
    these directives.
\<close>

fun process_directive :: "string \<Rightarrow> pp_directive \<Rightarrow> pp_state \<Rightarrow> pp_error + pp_state" where
  "process_directive file PragmaOnce st = Inr (st\<lparr>once := List.insert file (once st)\<rparr>)"
| "process_directive file (Define n b) st =
     (if n = ''defined'' then Inl (BadMacroName n)
      else Inr (st\<lparr>macros := AList.update n b (macros st)\<rparr>))"
| "process_directive file (Undef n) st =
     (if n = ''defined'' then Inl (BadMacroName n)
      else Inr (st\<lparr>macros := AList.delete n (macros st)\<rparr>))"

text \<open>The directives of a file in order; the first error ends the run.\<close>

fun run_directives :: "string \<Rightarrow> pp_directive list \<Rightarrow> pp_state \<Rightarrow> pp_error + pp_state" where
  "run_directives file [] st = Inr st"
| "run_directives file (d # ds) st =
     (case process_directive file d st of
        Inl e \<Rightarrow> Inl e
      | Inr st' \<Rightarrow> run_directives file ds st')"

text \<open>\<^verbatim>\<open>#include\<close> of a file: skipped when the file is recorded as read-once.\<close>

definition include_file :: "string \<Rightarrow> pp_directive list \<Rightarrow> pp_state \<Rightarrow> pp_error + pp_state" where
  "include_file path ds st =
     (if path \<in> set (once st) then Inr st else run_directives path ds st)"

definition include_layers :: "pp_state \<Rightarrow> pp_error + pp_state" where
  "include_layers st = include_file layers_path charybdis_layers_h st"

text \<open>Including the header \<open>k\<close> times in a row.\<close>

fun include_times :: "nat \<Rightarrow> pp_state \<Rightarrow> pp_error + pp_state" where
  "include_times 0 st = Inr st"
| "include_times (Suc k) st =
     (case include_layers st of
        Inl e \<Rightarrow> Inl e
      | Inr st' \<Rightarrow> include_times k st')"

text \<open>
  Macro expansion of a token sequence. An identifier that names a macro is replaced by
  the expansion of its replacement list; while a macro is being replaced its own name
  is not replaced again (the list \<open>hs\<close>), which is why expansion always ends.
\<close>

function expand :: "(string \<times> pp_token list) list \<Rightarrow> string list \<Rightarrow> pp_token list \<Rightarrow> pp_token list" where
  "expand tbl hs [] = []"
| "expand tbl hs (Num k # ts) = Num k # expand tbl hs ts"
| "expand tbl hs (Punct p # ts) = Punct p # expand tbl hs ts"
| "expand tbl hs (Ident n # ts) =
     (if n \<in> set hs then Ident n # expand tbl hs ts
      else (case map_of tbl n of
              None \<Rightarrow> Ident n # expand tbl hs ts
            | Some body \<Rightarrow> expand tbl (n # hs) body @ expand tbl hs ts))"
  by pat_completeness auto

termination expand
proof (relation "measures [\<lambda>(tbl, hs, ts). card (fst ` set tbl - set hs),
                           \<lambda>(tbl, hs, ts). length ts]")
  fix tbl :: "(string \<times> pp_token list) list" and hs :: "string list"
    and n :: string and ts body :: "pp_token list"
  assume "n \<notin> set hs" and "map_of tbl n = Some body"
  then have "fst ` set tbl - insert n (set hs) \<subset> fst ` set tbl - set hs"
    by (metis Diff_iff fst_conv image_eqI insertCI map_of_SomeD psubsetI Diff_mono
        subset_insertI subset_refl)
  then have "card (fst ` set tbl - insert n (set hs)) < card (fst ` set tbl - set hs)"
    by (simp add: psubset_card_mono)
  then show "((tbl, n # hs, body), (tbl, hs, Ident n # ts))
      \<in> measures [\<lambda>(tbl, hs, ts). card (fst ` set tbl - set hs), \<lambda>(tbl, hs, ts). length ts]"
    by simp
qed simp_all


section \<open>The layer table\<close>

text \<open>The macros in force after the header is included into an empty unit.\<close>

definition layer_macros :: "(string \<times> pp_token list) list" where
  "layer_macros = (case include_layers init_state of Inr st \<Rightarrow> macros st | Inl e \<Rightarrow> [])"

text \<open>
  The index a name stands for: the name is expanded with the header's macros, and the
  result must be one integer literal. A name the header does not define stays an
  identifier, which is the undefined-symbol case.
\<close>

definition layer_index :: "string \<Rightarrow> nat option" where
  "layer_index n = (case expand layer_macros [] [Ident n] of [Num k] \<Rightarrow> Some k | _ \<Rightarrow> None)"


section \<open>Directives of a unit and the declaration of the scenario\<close>

text \<open>
  The names that a stretch of directives defines or undefines. A translation unit acts
  on the macro table through its directives only, its own and those of the headers it
  includes.
\<close>

fun touched_names :: "pp_directive list \<Rightarrow> string list" where
  "touched_names [] = []"
| "touched_names (Define n b # ds) = n # touched_names ds"
| "touched_names (Undef n # ds) = n # touched_names ds"
| "touched_names (PragmaOnce # ds) = touched_names ds"

text \<open>The text line \<^verbatim>\<open>int x = RAISE;\<close> as preprocessing tokens.\<close>

definition decl_x_raise :: "pp_token list" where
  "decl_x_raise = [Ident ''int'', Ident ''x'', Punct ''='', Ident ''RAISE'', Punct '';'']"


section \<open>Basic facts\<close>

lemma layer_names_eq:
  "layer_names = [''BASE'', ''POINTER'', ''LOWER'', ''RAISE'', ''SYMBOLS'', ''SCROLL'', ''SNIPING'']"
  by (simp add: layer_names_def charybdis_layers_h_def)

lemma include_layers_init:
  "include_layers init_state =
     Inr \<lparr>macros = [(''BASE'', [Num 0]), (''POINTER'', [Num 1]), (''LOWER'', [Num 2]),
                    (''RAISE'', [Num 3]), (''SYMBOLS'', [Num 4]), (''SCROLL'', [Num 5]),
                    (''SNIPING'', [Num 6])],
          once = [layers_path]\<rparr>"
  by (simp add: include_layers_def include_file_def init_state_def charybdis_layers_h_def)

lemma layer_macros_eq:
  "layer_macros = [(''BASE'', [Num 0]), (''POINTER'', [Num 1]), (''LOWER'', [Num 2]),
                   (''RAISE'', [Num 3]), (''SYMBOLS'', [Num 4]), (''SCROLL'', [Num 5]),
                   (''SNIPING'', [Num 6])]"
  by (simp add: layer_macros_def include_layers_init)


section \<open>Values of the layer names\<close>

text \<open>
  C1. Each of the seven layer names expands to its integer literal: BASE to 0, POINTER
  to 1, LOWER to 2, RAISE to 3, SYMBOLS to 4, SCROLL to 5 and SNIPING to 6, and this
  is the order in which the header declares them.
\<close>

theorem layer_values:
  "expand layer_macros [] [Ident ''BASE''] = [Num 0] \<and>
   expand layer_macros [] [Ident ''POINTER''] = [Num 1] \<and>
   expand layer_macros [] [Ident ''LOWER''] = [Num 2] \<and>
   expand layer_macros [] [Ident ''RAISE''] = [Num 3] \<and>
   expand layer_macros [] [Ident ''SYMBOLS''] = [Num 4] \<and>
   expand layer_macros [] [Ident ''SCROLL''] = [Num 5] \<and>
   expand layer_macros [] [Ident ''SNIPING''] = [Num 6] \<and>
   map layer_index layer_names = [Some 0, Some 1, Some 2, Some 3, Some 4, Some 5, Some 6]"
  by (simp add: layer_macros_eq layer_names_eq layer_index_def)

lemma layer_index_eq:
  "layer_index n =
     (if n = ''BASE'' then Some 0 else if n = ''POINTER'' then Some 1
      else if n = ''LOWER'' then Some 2 else if n = ''RAISE'' then Some 3
      else if n = ''SYMBOLS'' then Some 4 else if n = ''SCROLL'' then Some 5
      else if n = ''SNIPING'' then Some 6 else None)"
  by (simp add: layer_index_def layer_macros_eq)

lemma layer_index_names: "map layer_index layer_names = map Some [0..<7]"
  by (simp add: layer_names_eq layer_index_eq upt_rec)

lemma layer_index_le: "layer_index n = Some k \<Longrightarrow> k \<le> 6"
  by (auto simp: layer_index_eq split: if_splits)

lemma layer_index_inj: "inj_on layer_index (set layer_names)"
proof -
  have "distinct (map layer_index layer_names)"
    unfolding layer_index_names by (simp add: distinct_map)
  then show ?thesis
    by (simp add: distinct_map)
qed

text \<open>
  C2. The header defines exactly seven names, BASE, POINTER, LOWER, RAISE, SYMBOLS,
  SCROLL and SNIPING, and nothing else: the set of names of its \<^verbatim>\<open>#define\<close> lines, and
  the set of macros in force after it is included into an empty unit, are this set of
  seven elements.
\<close>

theorem header_defines_seven_names:
  "set (defined_names charybdis_layers_h) =
     {''BASE'', ''POINTER'', ''LOWER'', ''RAISE'', ''SYMBOLS'', ''SCROLL'', ''SNIPING''} \<and>
   card (set (defined_names charybdis_layers_h)) = 7 \<and>
   length (defined_names charybdis_layers_h) = 7 \<and>
   fst ` set layer_macros = set (defined_names charybdis_layers_h)"
proof -
  have d: "defined_names charybdis_layers_h =
      [''BASE'', ''POINTER'', ''LOWER'', ''RAISE'', ''SYMBOLS'', ''SCROLL'', ''SNIPING'']"
    using layer_names_eq by (simp add: layer_names_def)
  have "distinct (defined_names charybdis_layers_h)"
    unfolding d by simp
  then have "card (set (defined_names charybdis_layers_h)) = 7"
    by (simp add: distinct_card d)
  moreover have "fst ` set layer_macros = set (defined_names charybdis_layers_h)"
    unfolding d layer_macros_eq by auto
  ultimately show ?thesis
    unfolding d by simp
qed

text \<open>
  C3. Uniqueness: two distinct names among the seven never stand for the same index.
\<close>

theorem layer_index_unique:
  "n1 \<in> set layer_names \<Longrightarrow> n2 \<in> set layer_names \<Longrightarrow> n1 \<noteq> n2 \<Longrightarrow>
     layer_index n1 \<noteq> layer_index n2"
  using layer_index_inj by (auto dest: inj_onD)

theorem layer_index_unique_witness:
  "''BASE'' \<in> set layer_names \<and> ''POINTER'' \<in> set layer_names \<and> ''BASE'' \<noteq> ''POINTER'' \<and>
   layer_index ''BASE'' \<noteq> layer_index ''POINTER''"
  using layer_index_unique [of "''BASE''" "''POINTER''"]
  by (simp add: layer_names_eq)

text \<open>
  C4. Contiguity and range: there are seven names, the name at position \<open>i\<close> of the
  declaration order (counted from 0) has index \<open>i\<close>, every index lies between 0 and 6,
  and the names correspond one to one to the numbers 0 to 6.
\<close>

theorem layer_index_contiguous:
  "length layer_names = 7 \<and>
   (\<forall>i<7. layer_index (layer_names ! i) = Some i) \<and>
   (\<forall>n\<in>set layer_names. \<exists>k\<le>6. layer_index n = Some k) \<and>
   bij_betw (\<lambda>n. the (layer_index n)) (set layer_names) {0..6}"
proof -
  have len: "length layer_names = 7"
    by (simp add: layer_names_eq)
  have nth: "layer_index (layer_names ! i) = Some i" if "i < 7" for i
  proof -
    from that len have "map layer_index layer_names ! i = Some i"
      unfolding layer_index_names by simp
    with that len show ?thesis by simp
  qed
  have rng: "\<exists>k\<le>6. layer_index n = Some k" if "n \<in> set layer_names" for n
  proof -
    from that obtain i where "i < 7" "layer_names ! i = n"
      using len by (auto simp: in_set_conv_nth)
    with nth [of i] show ?thesis by auto
  qed
  have inj: "inj_on (\<lambda>n. the (layer_index n)) (set layer_names)"
  proof (rule inj_onI)
    fix a b
    assume a: "a \<in> set layer_names" and b: "b \<in> set layer_names"
      and eq: "the (layer_index a) = the (layer_index b)"
    from rng [OF a] rng [OF b] eq have "layer_index a = layer_index b" by auto
    with layer_index_inj a b show "a = b" by (auto dest: inj_onD)
  qed
  have img: "(\<lambda>n. the (layer_index n)) ` set layer_names = {0..6}"
  proof
    show "(\<lambda>n. the (layer_index n)) ` set layer_names \<subseteq> {0..6}"
      using rng by fastforce
    show "{0..6} \<subseteq> (\<lambda>n. the (layer_index n)) ` set layer_names"
    proof
      fix k :: nat
      assume "k \<in> {0..6}"
      then have k: "k < 7" by simp
      with len have "layer_names ! k \<in> set layer_names" by simp
      moreover from nth [OF k] have "the (layer_index (layer_names ! k)) = k" by simp
      ultimately show "k \<in> (\<lambda>n. the (layer_index n)) ` set layer_names"
        by (metis image_eqI)
    qed
  qed
  from inj img have "bij_betw (\<lambda>n. the (layer_index n)) (set layer_names) {0..6}"
    by (simp add: bij_betw_def)
  with len nth rng show ?thesis by blast
qed

theorem layer_index_contiguous_witness:
  "layer_index (layer_names ! 3) = Some 3 \<and> ''RAISE'' \<in> set layer_names \<and>
   (\<exists>k\<le>6. layer_index ''RAISE'' = Some k)"
proof -
  have "(3::nat) < 7" by simp
  moreover have "''RAISE'' \<in> set layer_names" by (simp add: layer_names_eq)
  ultimately show ?thesis
    using layer_index_contiguous by blast
qed

text \<open>
  C8. Lookup as an option: a name has an index, and an entry in the macro table,
  exactly when it is one of BASE, POINTER, LOWER, RAISE, SYMBOLS, SCROLL and SNIPING,
  the names the header defines; for every other name the lookup gives nothing.
\<close>

theorem layer_lookup_total_on_names:
  "(layer_index n \<noteq> None) =
     (n \<in> {''BASE'', ''POINTER'', ''LOWER'', ''RAISE'', ''SYMBOLS'', ''SCROLL'', ''SNIPING''}) \<and>
   (map_of layer_macros n \<noteq> None) =
     (n \<in> {''BASE'', ''POINTER'', ''LOWER'', ''RAISE'', ''SYMBOLS'', ''SCROLL'', ''SNIPING''}) \<and>
   set layer_names =
     {''BASE'', ''POINTER'', ''LOWER'', ''RAISE'', ''SYMBOLS'', ''SCROLL'', ''SNIPING''}"
  by (simp add: layer_index_eq layer_macros_eq layer_names_eq)

theorem layer_lookup_total_on_names_witness:
  "layer_index ''BASE'' \<noteq> None \<and> layer_index ''POINTER'' \<noteq> None \<and>
   layer_index ''LOWER'' \<noteq> None \<and> layer_index ''RAISE'' \<noteq> None \<and>
   layer_index ''SYMBOLS'' \<noteq> None \<and> layer_index ''SCROLL'' \<noteq> None \<and>
   layer_index ''SNIPING'' \<noteq> None \<and>
   layer_index ''ADJUST'' = None \<and> map_of layer_macros ''ADJUST'' = None \<and>
   layer_index ''raise'' = None"
  using layer_lookup_total_on_names [of "''BASE''"] layer_lookup_total_on_names [of "''POINTER''"]
    layer_lookup_total_on_names [of "''LOWER''"] layer_lookup_total_on_names [of "''RAISE''"]
    layer_lookup_total_on_names [of "''SYMBOLS''"] layer_lookup_total_on_names [of "''SCROLL''"]
    layer_lookup_total_on_names [of "''SNIPING''"] layer_lookup_total_on_names [of "''ADJUST''"]
    layer_lookup_total_on_names [of "''raise''"]
  by simp

text \<open>
  C10, as amended. Every index is a nonnegative integer of at most 6, so reducing it
  modulo \<open>2 ^ w\<close> changes nothing once \<open>w\<close> is at least 3; it is read back unchanged
  from an unsigned machine word of at least 3 bits, and from a signed (two's
  complement) machine word of at least 4 bits.
\<close>

theorem layer_index_fits:
  fixes x :: "'a::len word" and y :: "'b::len word"
  assumes "layer_index n = Some k" and "3 \<le> w" and "3 \<le> LENGTH('a)" and "4 \<le> LENGTH('b)"
    and "x = of_nat k" and "y = of_nat k"
  shows "0 \<le> int k \<and> int k \<le> 6 \<and> k mod 2 ^ w = k \<and> int k mod 2 ^ w = int k \<and>
         unat x = k \<and> sint y = int k"
proof -
  from assms(1) have k: "k \<le> 6" by (rule layer_index_le)
  have p: "(2::nat) ^ 3 \<le> 2 ^ m" if "3 \<le> m" for m
    using that by (rule power_increasing) simp
  from k p [OF assms(2)] have kw: "k < 2 ^ w" by simp
  from k p [OF assms(3)] have ka: "k < 2 ^ LENGTH('a)" by simp
  from kw have "int k < 2 ^ w"
    by (metis of_nat_less_iff of_nat_numeral of_nat_power)
  then have im: "int k mod 2 ^ w = int k" by simp
  from ka have u: "unat x = k"
    by (simp add: assms(5) unat_of_nat)
  from assms(4) have "3 \<le> LENGTH('b) - 1" by simp
  from k p [OF this] have "k < 2 ^ (LENGTH('b) - 1)" by simp
  then have "int k < 2 ^ (LENGTH('b) - 1)"
    by (metis of_nat_less_iff of_nat_numeral of_nat_power)
  moreover have "- (2 ^ (LENGTH('b) - 1)) \<le> int k"
    by (rule order_trans [of _ 0]) simp_all
  ultimately have "signed_take_bit (LENGTH('b) - 1) (int k) = int k"
    by (rule signed_take_bit_int_eq_self [rotated])
  moreover have "sint y = signed_take_bit (LENGTH('b) - 1) (int k)"
    unfolding assms(6) using sint_sbintrunc' [of "int k", where 'a = 'b] by simp
  ultimately have s: "sint y = int k" by simp
  from k kw im u s show ?thesis by simp
qed

theorem layer_index_fits_witness:
  "layer_index ''SNIPING'' = Some 6 \<and> (3::nat) \<le> 3 \<and> 3 \<le> LENGTH(3) \<and> 4 \<le> LENGTH(4) \<and>
   (6::nat) mod 2 ^ 3 = 6 \<and> (6::int) mod 2 ^ 3 = 6 \<and>
   unat (of_nat 6 :: 3 word) = 6 \<and> sint (of_nat 6 :: 4 word) = 6"
proof -
  have a: "layer_index ''SNIPING'' = Some 6" by (simp add: layer_index_eq)
  have b: "(3::nat) \<le> 3" by simp
  have c: "3 \<le> LENGTH(3)" by simp
  have d: "4 \<le> LENGTH(4)" by simp
  from layer_index_fits [OF a b c d refl refl] a b c d show ?thesis by simp
qed

text \<open>
  C10 as stated, for any integer type of at least 3 bits, does not hold for a signed
  type of exactly 3 bits, whose largest value is 3: the index 6 of SNIPING is read back
  from it as \<open>-2\<close>.
\<close>

theorem layer_index_signed3_counterexample:
  "layer_index ''SNIPING'' = Some 6 \<and> 3 \<le> LENGTH(3) \<and>
   sint (of_nat 6 :: 3 word) = - 2 \<and> sint (of_nat 6 :: 3 word) \<noteq> int 6"
  by (simp add: layer_index_eq)


section \<open>Inclusion\<close>

lemma process_directive_once:
  "process_directive f d st = Inr st' \<Longrightarrow> p \<in> set (once st) \<Longrightarrow> p \<in> set (once st')"
  by (cases d) (auto split: option.splits if_splits)

lemma run_directives_once:
  "run_directives f ds st = Inr st' \<Longrightarrow> p \<in> set (once st) \<Longrightarrow> p \<in> set (once st')"
proof (induction ds arbitrary: st)
  case Nil
  then show ?case by simp
next
  case (Cons d ds)
  then show ?case
    by (auto split: sum.splits dest: process_directive_once)
qed

lemma include_layers_once:
  assumes "include_layers st = Inr st'"
  shows "layers_path \<in> set (once st')"
proof (cases "layers_path \<in> set (once st)")
  case True
  with assms show ?thesis by (simp add: include_layers_def include_file_def)
next
  case False
  have h: "charybdis_layers_h = PragmaOnce # tl charybdis_layers_h"
    by (simp add: charybdis_layers_h_def)
  from assms False
  have "run_directives layers_path (PragmaOnce # tl charybdis_layers_h) st = Inr st'"
    unfolding include_layers_def include_file_def using h by simp
  then have r: "run_directives layers_path (tl charybdis_layers_h)
      (st\<lparr>once := List.insert layers_path (once st)\<rparr>) = Inr st'"
    by simp
  show ?thesis
    by (rule run_directives_once [OF r]) simp
qed

lemma include_layers_again:
  "include_layers st = Inr st' \<Longrightarrow> include_layers st' = Inr st'"
  using include_layers_once [of st st'] by (simp add: include_layers_def include_file_def)

lemma include_times_fixed:
  "include_layers st = Inr st \<Longrightarrow> include_times k st = Inr st"
  by (induction k) simp_all

text \<open>
  C5. Inclusion is idempotent: from any preprocessor state, including the header any
  number of times greater than zero gives the result of including it once; after a
  successful inclusion the header is recorded as read-once, so that a further one
  changes nothing and raises no error; and from the empty state every such repetition
  ends without error in the same seven definitions.
\<close>

theorem include_idempotent:
  "0 < k \<Longrightarrow>
     include_times k st = include_layers st \<and>
     (include_layers st = Inr st' \<longrightarrow>
        layers_path \<in> set (once st') \<and> include_layers st' = Inr st') \<and>
     include_times k init_state =
       Inr \<lparr>macros = [(''BASE'', [Num 0]), (''POINTER'', [Num 1]), (''LOWER'', [Num 2]),
                      (''RAISE'', [Num 3]), (''SYMBOLS'', [Num 4]), (''SCROLL'', [Num 5]),
                      (''SNIPING'', [Num 6])],
            once = [layers_path]\<rparr>"
proof -
  assume "0 < k"
  then obtain j where k: "k = Suc j" by (cases k) auto
  have g: "include_times k s = include_layers s" for s
  proof (cases "include_layers s")
    case (Inl e)
    then show ?thesis by (simp add: k)
  next
    case (Inr s')
    with include_times_fixed [OF include_layers_again [OF Inr], of j]
    show ?thesis by (simp add: k)
  qed
  show ?thesis
    using g [of st] g [of init_state] include_layers_again [of st st']
      include_layers_once [of st st']
    by (simp add: include_layers_init)
qed


theorem include_idempotent_witness:
  "(0::nat) < 3 \<and> include_times 3 init_state = include_layers init_state \<and>
   include_layers init_state =
     Inr \<lparr>macros = [(''BASE'', [Num 0]), (''POINTER'', [Num 1]), (''LOWER'', [Num 2]),
                    (''RAISE'', [Num 3]), (''SYMBOLS'', [Num 4]), (''SCROLL'', [Num 5]),
                    (''SNIPING'', [Num 6])],
          once = [layers_path]\<rparr> \<and>
   include_layers \<lparr>macros = [(''BASE'', [Num 0]), (''POINTER'', [Num 1]), (''LOWER'', [Num 2]),
                    (''RAISE'', [Num 3]), (''SYMBOLS'', [Num 4]), (''SCROLL'', [Num 5]),
                    (''SNIPING'', [Num 6])],
          once = [layers_path]\<rparr> =
     Inr \<lparr>macros = [(''BASE'', [Num 0]), (''POINTER'', [Num 1]), (''LOWER'', [Num 2]),
                    (''RAISE'', [Num 3]), (''SYMBOLS'', [Num 4]), (''SCROLL'', [Num 5]),
                    (''SNIPING'', [Num 6])],
          once = [layers_path]\<rparr>"
proof -
  have pos: "(0::nat) < 3" by simp
  from include_idempotent [OF pos, of init_state] include_layers_init
  show ?thesis by simp
qed


section \<open>The macro table under directives\<close>

lemma process_directive_defines:
  "process_directive f (Define n b) st = Inr st' \<Longrightarrow> map_of (macros st') n = Some b"
  by (auto simp: update_conv' split: if_splits)

text \<open>
  A name keeps its replacement list under a directive that neither undefines it nor
  defines it with another list.
\<close>

lemma process_directive_keeps:
  "process_directive f d st = Inr st' \<Longrightarrow> d \<noteq> Undef n \<Longrightarrow>
     (\<forall>c. d = Define n c \<longrightarrow> c = b) \<Longrightarrow>
     map_of (macros st) n = Some b \<Longrightarrow> map_of (macros st') n = Some b"
  by (cases d) (auto simp: update_conv' delete_conv' split: if_splits)

lemma run_directives_keeps:
  "run_directives f ds st = Inr st' \<Longrightarrow> Undef n \<notin> set ds \<Longrightarrow>
     (\<forall>c. Define n c \<in> set ds \<longrightarrow> c = b) \<Longrightarrow>
     map_of (macros st) n = Some b \<Longrightarrow> map_of (macros st') n = Some b"
proof (induction ds arbitrary: st)
  case Nil
  then show ?case by simp
next
  case (Cons d ds)
  from Cons.prems(1) obtain s where
    d: "process_directive f d st = Inr s" and r: "run_directives f ds s = Inr st'"
    by (auto split: sum.splits)
  from Cons.prems(2) have nd: "d \<noteq> Undef n" and u: "Undef n \<notin> set ds" by auto
  from Cons.prems(3) have c1: "\<forall>c. d = Define n c \<longrightarrow> c = b"
    and c2: "\<forall>c. Define n c \<in> set ds \<longrightarrow> c = b" by auto
  from process_directive_keeps [OF d nd c1 Cons.prems(4)]
  have "map_of (macros s) n = Some b" .
  from Cons.IH [OF r u c2 this] show ?case .
qed

lemma run_directives_defines:
  "run_directives f ds st = Inr st' \<Longrightarrow> Define n b \<in> set ds \<Longrightarrow> Undef n \<notin> set ds \<Longrightarrow>
     (\<forall>c. Define n c \<in> set ds \<longrightarrow> c = b) \<Longrightarrow>
     map_of (macros st') n = Some b"
proof (induction ds arbitrary: st)
  case Nil
  then show ?case by simp
next
  case (Cons d ds)
  from Cons.prems(1) obtain s where
    d: "process_directive f d st = Inr s" and r: "run_directives f ds s = Inr st'"
    by (auto split: sum.splits)
  from Cons.prems(3) have u: "Undef n \<notin> set ds" by simp
  from Cons.prems(4) have c: "\<forall>c. Define n c \<in> set ds \<longrightarrow> c = b" by simp
  show ?case
  proof (cases "Define n b \<in> set ds")
    case True
    from Cons.IH [OF r True u c] show ?thesis .
  next
    case False
    with Cons.prems(2) have "d = Define n b" by simp
    with d have "map_of (macros s) n = Some b"
      by (simp add: process_directive_defines)
    from run_directives_keeps [OF r u c this] show ?thesis .
  qed
qed

lemma untouched_name:
  "n \<notin> set (touched_names ds) \<Longrightarrow> Undef n \<notin> set ds \<and> (\<forall>c. Define n c \<notin> set ds)"
proof (induction ds)
  case Nil
  then show ?case by simp
next
  case (Cons d ds)
  then show ?case by (cases d) auto
qed

lemma run_directives_append:
  "run_directives f (xs @ ys) st =
     (case run_directives f xs st of Inl e \<Rightarrow> Inl e | Inr s \<Rightarrow> run_directives f ys s)"
  by (induction xs arbitrary: st) (auto split: sum.splits)

lemma expand_append:
  "expand tbl hs (xs @ ys) = expand tbl hs xs @ expand tbl hs ys"
proof (induction xs)
  case Nil
  then show ?case by simp
next
  case (Cons t xs)
  then show ?case
    by (cases t) (simp_all split: option.splits)
qed

lemma header_no_undef: "Undef m \<notin> set charybdis_layers_h"
  by (simp add: charybdis_layers_h_def)

lemma header_body_unique:
  "Define m c \<in> set charybdis_layers_h \<Longrightarrow> Define m c' \<in> set charybdis_layers_h \<Longrightarrow> c = c'"
  by (auto simp: charybdis_layers_h_def)




lemma layer_index_body:
  "layer_index n = Some k \<Longrightarrow> map_of layer_macros n = Some [Num k]"
  by (auto simp: layer_macros_eq layer_index_eq split: if_splits)


section \<open>Definitions stay as made\<close>

text \<open>
  C7. The mapping is never mutated. The header has no \<^verbatim>\<open>#undef\<close> and defines no name
  twice; once one of its \<^verbatim>\<open>#define\<close> lines has been read, the name has that
  replacement list, and it still has it after any further stretch of the file; and a
  layer name expands to the same literal whatever tokens surround it.
\<close>

theorem layer_definitions_never_change:
  "(\<forall>m. Undef m \<notin> set charybdis_layers_h) \<and>
   distinct (defined_names charybdis_layers_h) \<and>
   (charybdis_layers_h = pre @ Define n b # mid @ rest \<and>
    run_directives file (pre @ [Define n b]) st = Inr st1 \<and>
    run_directives file mid st1 = Inr st2 \<longrightarrow>
      map_of (macros st1) n = Some b \<and> map_of (macros st2) n = Some b) \<and>
   (layer_index n = Some k \<longrightarrow>
      expand layer_macros [] (l @ Ident n # r) =
        expand layer_macros [] l @ Num k # expand layer_macros [] r)"
proof -
  have a: "\<forall>m. Undef m \<notin> set charybdis_layers_h"
    by (simp add: header_no_undef)
  have b: "distinct (defined_names charybdis_layers_h)"
    by (simp add: charybdis_layers_h_def)
  have c: "map_of (macros st1) n = Some b \<and> map_of (macros st2) n = Some b"
    if h: "charybdis_layers_h = pre @ Define n b # mid @ rest"
      and r1: "run_directives file (pre @ [Define n b]) st = Inr st1"
      and r2: "run_directives file mid st1 = Inr st2"
  proof -
    from r1 obtain s where "process_directive file (Define n b) s = Inr st1"
      by (auto simp: run_directives_append split: sum.splits)
    then have m1: "map_of (macros st1) n = Some b"
      by (rule process_directive_defines)
    have sub: "set mid \<subseteq> set charybdis_layers_h"
      unfolding h by auto
    with a have u: "Undef n \<notin> set mid" by blast
    have "Define n b \<in> set charybdis_layers_h"
      unfolding h by simp
    with sub have "\<forall>c. Define n c \<in> set mid \<longrightarrow> c = b"
      by (blast dest: header_body_unique)
    from run_directives_keeps [OF r2 u this m1] m1 show ?thesis by simp
  qed
  have d: "expand layer_macros [] (l @ Ident n # r) =
        expand layer_macros [] l @ Num k # expand layer_macros [] r"
    if "layer_index n = Some k"
  proof -
    from that have "map_of layer_macros n = Some [Num k]"
      by (rule layer_index_body)
    then show ?thesis
      by (simp add: expand_append)
  qed
  from a b c d show ?thesis by blast
qed

theorem layer_definitions_never_change_witness:
  "charybdis_layers_h =
     [PragmaOnce, Define ''BASE'' [Num 0], Define ''POINTER'' [Num 1], Define ''LOWER'' [Num 2]]
       @ Define ''RAISE'' [Num 3] # [Define ''SYMBOLS'' [Num 4]]
       @ [Define ''SCROLL'' [Num 5], Define ''SNIPING'' [Num 6]] \<and>
   run_directives layers_path
     ([PragmaOnce, Define ''BASE'' [Num 0], Define ''POINTER'' [Num 1], Define ''LOWER'' [Num 2]]
        @ [Define ''RAISE'' [Num 3]]) init_state =
     Inr \<lparr>macros = [(''BASE'', [Num 0]), (''POINTER'', [Num 1]), (''LOWER'', [Num 2]),
                    (''RAISE'', [Num 3])], once = [layers_path]\<rparr> \<and>
   run_directives layers_path [Define ''SYMBOLS'' [Num 4]]
     \<lparr>macros = [(''BASE'', [Num 0]), (''POINTER'', [Num 1]), (''LOWER'', [Num 2]),
                (''RAISE'', [Num 3])], once = [layers_path]\<rparr> =
     Inr \<lparr>macros = [(''BASE'', [Num 0]), (''POINTER'', [Num 1]), (''LOWER'', [Num 2]),
                    (''RAISE'', [Num 3]), (''SYMBOLS'', [Num 4])], once = [layers_path]\<rparr> \<and>
   map_of [(''BASE'', [Num 0]), (''POINTER'', [Num 1]), (''LOWER'', [Num 2]),
           (''RAISE'', [Num 3]), (''SYMBOLS'', [Num 4])] ''RAISE'' = Some [Num 3] \<and>
   layer_index ''RAISE'' = Some 3 \<and>
   expand layer_macros [] ([Ident ''int'', Ident ''x'', Punct ''=''] @ Ident ''RAISE'' # [Punct '';'']) =
     [Ident ''int'', Ident ''x'', Punct ''='', Num 3, Punct '';'']"
proof -
  let ?pre = "[PragmaOnce, Define ''BASE'' [Num 0], Define ''POINTER'' [Num 1], Define ''LOWER'' [Num 2]]"
  let ?s1 = "\<lparr>macros = [(''BASE'', [Num 0]), (''POINTER'', [Num 1]), (''LOWER'', [Num 2]),
                    (''RAISE'', [Num 3])], once = [layers_path]\<rparr>"
  let ?s2 = "\<lparr>macros = [(''BASE'', [Num 0]), (''POINTER'', [Num 1]), (''LOWER'', [Num 2]),
                    (''RAISE'', [Num 3]), (''SYMBOLS'', [Num 4])], once = [layers_path]\<rparr>"
  have h: "charybdis_layers_h = ?pre @ Define ''RAISE'' [Num 3] # [Define ''SYMBOLS'' [Num 4]]
       @ [Define ''SCROLL'' [Num 5], Define ''SNIPING'' [Num 6]]"
    by (simp add: charybdis_layers_h_def)
  have r1: "run_directives layers_path (?pre @ [Define ''RAISE'' [Num 3]]) init_state = Inr ?s1"
    by (simp add: init_state_def)
  have r2: "run_directives layers_path [Define ''SYMBOLS'' [Num 4]] ?s1 = Inr ?s2"
    by simp
  have i: "layer_index ''RAISE'' = Some 3"
    by (simp add: layer_index_eq)
  have e: "expand layer_macros [] [Ident ''int'', Ident ''x'', Punct ''=''] =
      [Ident ''int'', Ident ''x'', Punct ''='']"
    by (simp add: layer_macros_eq)
  have p: "expand layer_macros [] [Punct '';''] = [Punct '';'']"
    by simp
  from layer_definitions_never_change [of ?pre "''RAISE''" "[Num 3]" "[Define ''SYMBOLS'' [Num 4]]"
      "[Define ''SCROLL'' [Num 5], Define ''SNIPING'' [Num 6]]" layers_path init_state ?s1 ?s2 3
      "[Ident ''int'', Ident ''x'', Punct ''='']" "[Punct '';'']"]
    h r1 r2 i e p
  show ?thesis by simp
qed


section \<open>Each definition stands alone\<close>

lemma process_header_directive:
  "d \<in> set charybdis_layers_h \<Longrightarrow> \<exists>st'. process_directive f d st = Inr st'"
  by (auto simp: charybdis_layers_h_def)

lemma run_header_subset:
  "set ds \<subseteq> set charybdis_layers_h \<Longrightarrow> \<exists>st'. run_directives f ds st = Inr st'"
proof (induction ds arbitrary: st)
  case Nil
  then show ?case by simp
next
  case (Cons d ds)
  from Cons.prems have "d \<in> set charybdis_layers_h" by simp
  from process_header_directive [OF this, of f st]
  obtain s where s: "process_directive f d st = Inr s" by blast
  from Cons.prems have "set ds \<subseteq> set charybdis_layers_h" by simp
  from Cons.IH [OF this, of s] s show ?case by simp
qed

lemma run_header_selection:
  assumes sub: "set ds \<subseteq> set charybdis_layers_h" and mem: "Define n b \<in> set ds"
  shows "\<exists>st'. run_directives f ds st = Inr st' \<and> map_of (macros st') n = Some b"
proof -
  from run_header_subset [OF sub] obtain st' where r: "run_directives f ds st = Inr st'"
    by blast
  from sub have u: "Undef n \<notin> set ds"
    using header_no_undef by blast
  from sub mem have "\<forall>c. Define n c \<in> set ds \<longrightarrow> c = b"
    by (blast dest: header_body_unique)
  from run_directives_defines [OF r mem u this] r show ?thesis by blast
qed

text \<open>
  Reading the header, when it is not skipped, always succeeds and leaves each of its
  names with the header's replacement list, whatever the name stood for before.
\<close>

lemma include_layers_defines:
  assumes o: "layers_path \<notin> set (once s1)" and d: "Define n b \<in> set charybdis_layers_h"
  shows "\<exists>s2. include_layers s1 = Inr s2 \<and> map_of (macros s2) n = Some b"
proof -
  from run_header_selection [OF subset_refl d, of layers_path s1] o show ?thesis
    by (simp add: include_layers_def include_file_def)
qed





section \<open>A declaration that uses a layer name\<close>

text \<open>
  C6, as amended. Take any point of a translation unit after the header has been read
  (included while not yet recorded as read-once, on top of whatever came before), with
  no directive since then that defines or undefines RAISE. There the initializer of
  \<^verbatim>\<open>int x = RAISE;\<close> is replaced by the literal 3, and when neither \<^verbatim>\<open>int\<close> nor \<^verbatim>\<open>x\<close>
  is a macro the line reads \<^verbatim>\<open>int x = 3;\<close> after preprocessing, which gives the
  constant \<open>x\<close> the value 3. Reading the header itself never fails. The scenario of the
  specification, the inclusion followed by the declaration, is the instance evaluated
  in the witness.
\<close>

theorem decl_raise_is_3:
  "layers_path \<notin> set (once st0) \<Longrightarrow>
     (\<exists>s. include_layers st0 = Inr s) \<and>
     (include_layers st0 = Inr st1 \<and> run_directives main ds st1 = Inr st2 \<and>
      ''RAISE'' \<notin> set (touched_names ds) \<longrightarrow>
        expand (macros st2) [] decl_x_raise =
          expand (macros st2) [] [Ident ''int'', Ident ''x'']
            @ [Punct ''='', Num 3, Punct '';''] \<and>
        (map_of (macros st2) ''int'' = None \<and> map_of (macros st2) ''x'' = None \<longrightarrow>
           expand (macros st2) [] decl_x_raise =
             [Ident ''int'', Ident ''x'', Punct ''='', Num 3, Punct '';'']))"
proof -
  assume o: "layers_path \<notin> set (once st0)"
  have H: "Define ''RAISE'' [Num 3] \<in> set charybdis_layers_h"
    by (simp add: charybdis_layers_h_def)
  from include_layers_defines [OF o H]
  have t: "\<exists>s. include_layers st0 = Inr s"
    and m1: "include_layers st0 = Inr st1 \<Longrightarrow> map_of (macros st1) ''RAISE'' = Some [Num 3]"
    by auto
  have g: "expand (macros st2) [] decl_x_raise =
          expand (macros st2) [] [Ident ''int'', Ident ''x'']
            @ [Punct ''='', Num 3, Punct '';''] \<and>
        (map_of (macros st2) ''int'' = None \<and> map_of (macros st2) ''x'' = None \<longrightarrow>
           expand (macros st2) [] decl_x_raise =
             [Ident ''int'', Ident ''x'', Punct ''='', Num 3, Punct '';''])"
    if i: "include_layers st0 = Inr st1" and r: "run_directives main ds st1 = Inr st2"
      and u: "''RAISE'' \<notin> set (touched_names ds)"
  proof -
    from untouched_name [OF u] have u1: "Undef ''RAISE'' \<notin> set ds"
      and u2: "\<forall>c. Define ''RAISE'' c \<in> set ds \<longrightarrow> c = [Num 3]" by auto
    from run_directives_keeps [OF r u1 u2 m1 [OF i]]
    have m2: "map_of (macros st2) ''RAISE'' = Some [Num 3]" .
    have d: "decl_x_raise = [Ident ''int'', Ident ''x''] @ [Punct ''='', Ident ''RAISE'', Punct '';'']"
      by (simp add: decl_x_raise_def)
    have a: "expand (macros st2) [] decl_x_raise =
        expand (macros st2) [] [Ident ''int'', Ident ''x'']
          @ expand (macros st2) [] [Punct ''='', Ident ''RAISE'', Punct '';'']"
      unfolding d by (rule expand_append)
    have b: "expand (macros st2) [] [Punct ''='', Ident ''RAISE'', Punct '';''] =
        [Punct ''='', Num 3, Punct '';'']"
      using m2 by simp
    have c: "expand (macros st2) [] [Ident ''int'', Ident ''x''] = [Ident ''int'', Ident ''x'']"
      if "map_of (macros st2) ''int'' = None" "map_of (macros st2) ''x'' = None"
      using that by simp
    from a b c show ?thesis by simp
  qed
  from t g show ?thesis by blast
qed

theorem decl_raise_is_3_witness:
  "layers_path \<notin> set (once init_state) \<and>
   include_layers init_state =
     Inr \<lparr>macros = [(''BASE'', [Num 0]), (''POINTER'', [Num 1]), (''LOWER'', [Num 2]),
                    (''RAISE'', [Num 3]), (''SYMBOLS'', [Num 4]), (''SCROLL'', [Num 5]),
                    (''SNIPING'', [Num 6])],
          once = [layers_path]\<rparr> \<and>
   run_directives ''main.c'' []
     \<lparr>macros = [(''BASE'', [Num 0]), (''POINTER'', [Num 1]), (''LOWER'', [Num 2]),
                (''RAISE'', [Num 3]), (''SYMBOLS'', [Num 4]), (''SCROLL'', [Num 5]),
                (''SNIPING'', [Num 6])],
      once = [layers_path]\<rparr> =
     Inr \<lparr>macros = [(''BASE'', [Num 0]), (''POINTER'', [Num 1]), (''LOWER'', [Num 2]),
                    (''RAISE'', [Num 3]), (''SYMBOLS'', [Num 4]), (''SCROLL'', [Num 5]),
                    (''SNIPING'', [Num 6])],
          once = [layers_path]\<rparr> \<and>
   ''RAISE'' \<notin> set (touched_names []) \<and>
   map_of layer_macros ''int'' = None \<and> map_of layer_macros ''x'' = None \<and>
   expand layer_macros [] decl_x_raise =
     [Ident ''int'', Ident ''x'', Punct ''='', Num 3, Punct '';'']"
proof -
  let ?s = "\<lparr>macros = layer_macros, once = [layers_path]\<rparr>"
  have o: "layers_path \<notin> set (once init_state)"
    by (simp add: init_state_def)
  have i: "include_layers init_state = Inr ?s"
    by (simp add: include_layers_init layer_macros_eq)
  have r: "run_directives ''main.c'' [] ?s = Inr ?s"
    by simp
  have u: "''RAISE'' \<notin> set (touched_names [])"
    by simp
  have n: "map_of (macros ?s) ''int'' = None \<and> map_of (macros ?s) ''x'' = None"
    by (simp add: layer_macros_eq)
  from decl_raise_is_3 [OF o, where ?st1.0 = ?s and main = "''main.c''" and ds = "[]" and ?st2.0 = ?s]
    i r u n
  have "expand (macros ?s) [] decl_x_raise =
      [Ident ''int'', Ident ''x'', Punct ''='', Num 3, Punct '';'']"
    by blast
  then have e: "expand layer_macros [] decl_x_raise =
      [Ident ''int'', Ident ''x'', Punct ''='', Num 3, Punct '';'']"
    by simp
  from n have n': "map_of layer_macros ''int'' = None \<and> map_of layer_macros ''x'' = None"
    by simp
  from o i r u n' e show ?thesis
    unfolding layer_macros_eq by blast
qed

text \<open>
  C6 as stated, for any unit that includes the header and contains the declaration,
  does not hold: in a unit that undefines RAISE after the inclusion and defines it
  anew, the declaration reads \<^verbatim>\<open>int x = 9;\<close> after preprocessing.
  \<^verbatim>\<open>
  #include "charybdis_layers.h"
  #undef RAISE
  #define RAISE 9
  int x = RAISE;
  \<close>
\<close>

theorem decl_raise_counterexample:
  "include_layers init_state =
     Inr \<lparr>macros = [(''BASE'', [Num 0]), (''POINTER'', [Num 1]), (''LOWER'', [Num 2]),
                    (''RAISE'', [Num 3]), (''SYMBOLS'', [Num 4]), (''SCROLL'', [Num 5]),
                    (''SNIPING'', [Num 6])],
          once = [layers_path]\<rparr> \<and>
   run_directives ''main.c'' [Undef ''RAISE'', Define ''RAISE'' [Num 9]]
     \<lparr>macros = [(''BASE'', [Num 0]), (''POINTER'', [Num 1]), (''LOWER'', [Num 2]),
                (''RAISE'', [Num 3]), (''SYMBOLS'', [Num 4]), (''SCROLL'', [Num 5]),
                (''SNIPING'', [Num 6])],
      once = [layers_path]\<rparr> =
     Inr \<lparr>macros = [(''BASE'', [Num 0]), (''POINTER'', [Num 1]), (''LOWER'', [Num 2]),
                    (''SYMBOLS'', [Num 4]), (''SCROLL'', [Num 5]), (''SNIPING'', [Num 6]),
                    (''RAISE'', [Num 9])],
          once = [layers_path]\<rparr> \<and>
   expand [(''BASE'', [Num 0]), (''POINTER'', [Num 1]), (''LOWER'', [Num 2]),
           (''SYMBOLS'', [Num 4]), (''SCROLL'', [Num 5]), (''SNIPING'', [Num 6]),
           (''RAISE'', [Num 9])] [] decl_x_raise =
     [Ident ''int'', Ident ''x'', Punct ''='', Num 9, Punct '';'']"
  by (simp add: include_layers_init decl_x_raise_def)

end
